theory Spec2Isabelle
  imports Main "HOL-Library.Char_ord" "HOL-Library.List_Lexorder"
begin

section \<open>TrenchBroom: the material manager (Assets/MaterialManager.cpp)\<close>

text \<open>
  A shallow embedding of \<^verbatim>\<open>TrenchBroom::Assets::MaterialManager\<close>. Each member
  function becomes a function from the manager's state to its new state. The collaborators
  whose code is not part of the translated file (the collection class, the loader, the
  logger, \<^verbatim>\<open>kdl::str_to_lower\<close>) are modelled from the specification or taken as
  parameters; each such definition says so.
\<close>

subsection \<open>Materials and collections\<close>

type_synonym path = string

text \<open>
  Modelled from the spec: the class \<^verbatim>\<open>Material\<close> is declared in Assets/Material.h.
  The manager only reads \<^verbatim>\<open>name()\<close>; the payload stands for the pixel data.
\<close>

record Material =
  name :: string
  payload :: nat

text \<open>
  Modelled from the spec: the class \<^verbatim>\<open>MaterialCollection\<close> is declared in
  Assets/MaterialCollection.h. It has a source path, an ordered sequence of materials and
  the flags \<open>loaded\<close> and \<open>prepared\<close>. \<open>textureMode\<close> is the filter mode bound on the
  GPU side (none before the collection is prepared). \<open>prepareCount\<close> is a history
  variable: the number of \<^verbatim>\<open>prepare\<close> calls this instance has received.
\<close>

record MaterialCollection =
  path :: path
  materials :: "Material list"
  loaded :: bool
  prepared :: bool
  textureMode :: "(int \<times> int) option"
  prepareCount :: nat

text \<open>
  Modelled from the spec: the constructor \<^verbatim>\<open>MaterialCollection{path}\<close> builds the
  placeholder of a failed load: no materials, not loaded, not prepared.
\<close>

definition MaterialCollection_path :: "path \<Rightarrow> MaterialCollection" where
  "MaterialCollection_path p =
     \<lparr>path = p, materials = [], loaded = False, prepared = False,
      textureMode = None, prepareCount = 0\<rparr>"

text \<open>
  Modelled from the spec: \<^verbatim>\<open>MaterialCollection::prepare(minFilter, magFilter)\<close> is the
  transition from loaded to prepared; it binds the filter mode it is given.
\<close>

definition collection_prepare :: "int \<Rightarrow> int \<Rightarrow> MaterialCollection \<Rightarrow> MaterialCollection" where
  "collection_prepare minFilter magFilter c =
     c\<lparr>prepared := True, textureMode := Some (minFilter, magFilter),
       prepareCount := Suc (prepareCount c)\<rparr>"

text \<open>
  Modelled from the spec: \<^verbatim>\<open>MaterialCollection::setFilterMode(minFilter, magFilter)\<close>
  changes the bound filter mode only if the collection is already prepared.
\<close>

definition collection_setFilterMode :: "int \<Rightarrow> int \<Rightarrow> MaterialCollection \<Rightarrow> MaterialCollection" where
  "collection_setFilterMode minFilter magFilter c =
     (if prepared c then c\<lparr>textureMode := Some (minFilter, magFilter)\<rparr> else c)"

subsection \<open>The logger\<close>

text \<open>
  Modelled from the spec: the class \<^verbatim>\<open>Logger\<close> is declared in Logger.h. A statement
  \<^verbatim>\<open>m_logger.error() << a << b\<close> emits one line at that level; the line is kept as the
  sequence of the values streamed into it, a path being kept apart from literal text.
\<close>

datatype LogLevel = Debug | Info | Warn | Err

datatype piece = Str string | Path path

type_synonym log_line = "LogLevel \<times> piece list"

subsection \<open>Lower-casing and the name map\<close>

text \<open>
  Modelled from the spec: \<^verbatim>\<open>kdl::str_to_lower\<close> (kdl/string_format.h) lower-cases a
  string character by character; the letters A to Z are the ones that change.
\<close>

definition char_to_lower :: "char \<Rightarrow> char" where
  "char_to_lower c =
     (if CHR ''A'' \<le> c \<and> c \<le> CHR ''Z'' then char_of (of_char c + (32::nat)) else c)"

definition str_to_lower :: "string \<Rightarrow> string" where
  "str_to_lower s = map char_to_lower s"

text \<open>
  A \<^verbatim>\<open>Material*\<close> held by the manager points into a collection of \<open>m_collections\<close>:
  it is the index of the collection and the index of the material inside it.
\<close>

type_synonym material_ref = "nat \<times> nat"

text \<open>
  \<open>m_texturesByName\<close> is a \<^verbatim>\<open>std::map<std::string, Material*>\<close>: an association list
  whose keys are kept in increasing order. \<open>map_assign\<close> is lines 217 to 225 of
  \<^verbatim>\<open>updateTextures\<close>: overwrite the value of a key that is present, insert the pair
  otherwise. Looking a key up is \<open>map_of\<close>.
\<close>

fun map_assign :: "string \<Rightarrow> 'v \<Rightarrow> (string \<times> 'v) list \<Rightarrow> (string \<times> 'v) list" where
  "map_assign k v [] = [(k, v)]"
| "map_assign k v ((k', v') # kvs) =
     (if k = k' then (k, v) # kvs
      else if k < k' then (k, v) # (k', v') # kvs
      else (k', v') # map_assign k v kvs)"

subsection \<open>The manager\<close>

text \<open>
  Modelled from the spec: the class is declared in Assets/MaterialManager.h. The fields are
  the ones the member functions of MaterialManager.cpp read and write, with the types their
  use there shows. \<open>m_logger\<close> is the sequence of lines the logger has received.
  \<open>loadCalls\<close> is a history variable: the paths \<^verbatim>\<open>IO::loadTextureCollection\<close> has been
  called with, oldest first.
\<close>

record MaterialManager =
  m_logger :: "log_line list"
  m_minFilter :: int
  m_magFilter :: int
  m_resetTextureMode :: bool
  m_collections :: "MaterialCollection list"
  m_toPrepare :: "nat list"
  m_toRemove :: "MaterialCollection list"
  m_texturesByName :: "(string \<times> material_ref) list"
  m_textures :: "material_ref list"
  loadCalls :: "path list"

text \<open>
  \<^verbatim>\<open>IO::loadTextureCollection(path, fs, textureConfig, m_logger)\<close> is a collaborator:
  with the file system and the configuration fixed it is a function from a path to an
  error message (\<open>Inl\<close>) or a collection (\<open>Inr\<close>). What the loader itself writes to the
  logger is not part of the model: \<open>m_logger\<close> holds the lines of the manager.
\<close>

type_synonym loader = "path \<Rightarrow> string + MaterialCollection"

definition log :: "LogLevel \<Rightarrow> piece list \<Rightarrow> MaterialManager \<Rightarrow> MaterialManager" where
  "log lvl ps m = m\<lparr>m_logger := m_logger m @ [(lvl, ps)]\<rparr>"

text \<open>\<^verbatim>\<open>MaterialManager::addTextureCollection\<close>, lines 125 to 136.\<close>

definition addTextureCollection :: "MaterialCollection \<Rightarrow> MaterialManager \<Rightarrow> MaterialManager" where
  "addTextureCollection collection m =
     (let index = length (m_collections m);
          m1 = m\<lparr>m_collections := m_collections m @ [collection]\<rparr>;
          m2 = (if loaded (m_collections m1 ! index) \<and> \<not> prepared (m_collections m1 ! index)
                then m1\<lparr>m_toPrepare := m_toPrepare m1 @ [index]\<rparr>
                else m1)
      in log Debug [Str ''Added texture collection '', Path (path (m_collections m2 ! index))] m2)"

text \<open>\<^verbatim>\<open>MaterialManager::clear\<close>, lines 138 to 147.\<close>

definition clear :: "MaterialManager \<Rightarrow> MaterialManager" where
  "clear m = m\<lparr>m_collections := [], m_toPrepare := [], m_texturesByName := [], m_textures := []\<rparr>"

text \<open>\<^verbatim>\<open>MaterialManager::setTextureMode\<close>, lines 149 to 154.\<close>

definition setTextureMode :: "int \<Rightarrow> int \<Rightarrow> MaterialManager \<Rightarrow> MaterialManager" where
  "setTextureMode minFilter magFilter m =
     m\<lparr>m_minFilter := minFilter, m_magFilter := magFilter, m_resetTextureMode := True\<rparr>"

text \<open>
  \<^verbatim>\<open>MaterialManager::updateTextures\<close>, lines 206 to 232. The inner loop runs over the
  materials of one collection, the outer loop over the collections; both carry the index
  that the pointer \<^verbatim>\<open>&texture\<close> stands for.
\<close>

fun index_materials ::
  "nat \<Rightarrow> nat \<Rightarrow> Material list \<Rightarrow> (string \<times> material_ref) list \<Rightarrow> (string \<times> material_ref) list" where
  "index_materials ci mi [] tm = tm"
| "index_materials ci mi (t # ts) tm =
     index_materials ci (Suc mi) ts (map_assign (str_to_lower (name t)) (ci, mi) tm)"

fun index_collections ::
  "nat \<Rightarrow> MaterialCollection list \<Rightarrow> (string \<times> material_ref) list \<Rightarrow> (string \<times> material_ref) list" where
  "index_collections ci [] tm = tm"
| "index_collections ci (c # cs) tm =
     index_collections (Suc ci) cs (index_materials ci 0 (materials c) tm)"

definition updateTextures :: "MaterialManager \<Rightarrow> MaterialManager" where
  "updateTextures m =
     (let tm = index_collections 0 (m_collections m) []
      in m\<lparr>m_texturesByName := tm, m_textures := map snd tm\<rparr>)"

text \<open>\<^verbatim>\<open>MaterialManager::texture\<close>, lines 163 to 167; \<open>None\<close> is the null pointer.\<close>

definition texture :: "MaterialManager \<Rightarrow> string \<Rightarrow> material_ref option" where
  "texture m nm = map_of (m_texturesByName m) (str_to_lower nm)"

text \<open>
  \<^verbatim>\<open>std::find_if\<close> returns the position of the first element that satisfies the
  predicate, \<open>None\<close> standing for the end iterator; \<^verbatim>\<open>erase\<close> removes the element at
  a position.
\<close>

fun find_if :: "('a \<Rightarrow> bool) \<Rightarrow> 'a list \<Rightarrow> nat option" where
  "find_if P [] = None"
| "find_if P (x # xs) = (if P x then Some 0 else map_option Suc (find_if P xs))"

definition erase :: "'a list \<Rightarrow> nat \<Rightarrow> 'a list" where
  "erase xs i = take i xs @ drop (Suc i) xs"

text \<open>
  The body of the loop of \<^verbatim>\<open>setTextureCollections(paths, fs, textureConfig)\<close>, lines 86
  to 118. The state of the loop is the local vector \<open>collections\<close> (the previous
  generation) and the manager.
\<close>

definition loadOrReuse ::
  "loader \<Rightarrow> path \<Rightarrow> MaterialCollection list \<times> MaterialManager
     \<Rightarrow> MaterialCollection list \<times> MaterialManager" where
  "loadOrReuse ld p s =
     (let collections = fst s; m = snd s;
          it = find_if (\<lambda>c. path c = p) collections;
          m' = (if it = None \<or> \<not> loaded (collections ! the it)
                then (let m1 = m\<lparr>loadCalls := loadCalls m @ [p]\<rparr>;
                          r = (case ld p of
                                 Inl msg \<Rightarrow>
                                   (MaterialCollection_path p,
                                    if it = None
                                    then log Err [Str ''Could not load texture collection '',
                                                  Str [CHR 0x27], Path p, Str [CHR 0x27, CHR '':'', CHR '' ''],
                                                  Str msg] m1
                                    else m1)
                               | Inr c \<Rightarrow> (c, m1));
                          collection = fst r;
                          m2 = (if materials collection \<noteq> []
                                then log Info [Str ''Loaded texture collection '', Str [CHR 0x27],
                                               Path p, Str [CHR 0x27]] (snd r)
                                else snd r)
                      in addTextureCollection collection m2)
                else addTextureCollection (collections ! the it) m)
      in (case it of None \<Rightarrow> collections | Some i \<Rightarrow> erase collections i, m'))"

fun loadLoop ::
  "loader \<Rightarrow> path list \<Rightarrow> MaterialCollection list \<times> MaterialManager
     \<Rightarrow> MaterialCollection list \<times> MaterialManager" where
  "loadLoop ld [] s = s"
| "loadLoop ld (p # ps) s = loadLoop ld ps (loadOrReuse ld p s)"

text \<open>
  \<^verbatim>\<open>MaterialManager::setTextureCollections(paths, fs, textureConfig)\<close>, lines 76 to 123:
  the reconciliation against a target list of paths. Moving \<open>m_collections\<close> away leaves
  it empty.
\<close>

definition setTextureCollections :: "path list \<Rightarrow> loader \<Rightarrow> MaterialManager \<Rightarrow> MaterialManager" where
  "setTextureCollections paths ld m =
     (let collections = m_collections m;
          m0 = clear (m\<lparr>m_collections := []\<rparr>);
          s = loadLoop ld paths (collections, m0);
          m1 = updateTextures (snd s)
      in m1\<lparr>m_toRemove := m_toRemove m1 @ fst s\<rparr>)"

text \<open>
  \<^verbatim>\<open>MaterialManager::setTextureCollections(std::vector<MaterialCollection>)\<close>, lines 67
  to 74.
\<close>

definition setTextureCollections_vector ::
  "MaterialCollection list \<Rightarrow> MaterialManager \<Rightarrow> MaterialManager" where
  "setTextureCollections_vector cs m = updateTextures (fold addTextureCollection cs m)"

text \<open>
  \<^verbatim>\<open>MaterialManager::reload\<close>, lines 54 to 65. \<^verbatim>\<open>findTextureCollections\<close> is a
  collaborator; its result for the given file system and configuration is the parameter
  \<open>found\<close>, an error message or the list of paths.
\<close>

definition reload :: "string + path list \<Rightarrow> loader \<Rightarrow> MaterialManager \<Rightarrow> MaterialManager" where
  "reload found ld m =
     (case found of
        Inr textureCollections \<Rightarrow> setTextureCollections textureCollections ld m
      | Inl msg \<Rightarrow>
          setTextureCollections [] ld
            (log Err [Str (''Could not reload texture collections: '' @ msg)] m))"

text \<open>\<^verbatim>\<open>MaterialManager::resetTextureMode\<close>, lines 184 to 194.\<close>

definition resetTextureMode :: "MaterialManager \<Rightarrow> MaterialManager" where
  "resetTextureMode m =
     (if m_resetTextureMode m
      then m\<lparr>m_collections :=
               map (collection_setFilterMode (m_minFilter m) (m_magFilter m)) (m_collections m),
             m_resetTextureMode := False\<rparr>
      else m)"

text \<open>
  \<^verbatim>\<open>MaterialManager::prepare\<close>, lines 196 to 204. \<^verbatim>\<open>m_collections[index]\<close> with an
  index that is not below the size of the vector is undefined behaviour; the model makes
  it the fault \<open>IndexOutOfRange\<close>.
\<close>

datatype fault = IndexOutOfRange nat

fun prepareLoop :: "nat list \<Rightarrow> MaterialManager \<Rightarrow> fault + MaterialManager" where
  "prepareLoop [] m = Inr m"
| "prepareLoop (index # rest) m =
     (if index < length (m_collections m)
      then prepareLoop rest
             (m\<lparr>m_collections := (m_collections m)
                  [index := collection_prepare (m_minFilter m) (m_magFilter m)
                              (m_collections m ! index)]\<rparr>)
      else Inl (IndexOutOfRange index))"

definition prepare :: "MaterialManager \<Rightarrow> fault + MaterialManager" where
  "prepare m =
     (case prepareLoop (m_toPrepare m) m of
        Inl f \<Rightarrow> Inl f
      | Inr m' \<Rightarrow> Inr (m'\<lparr>m_toPrepare := []\<rparr>))"

text \<open>\<^verbatim>\<open>MaterialManager::commitChanges\<close>, lines 156 to 161.\<close>

definition commitChanges :: "MaterialManager \<Rightarrow> fault + MaterialManager" where
  "commitChanges m =
     (case prepare (resetTextureMode m) of
        Inl f \<Rightarrow> Inl f
      | Inr m' \<Rightarrow> Inr (m'\<lparr>m_toRemove := []\<rparr>))"

subsection \<open>Vocabulary of the properties\<close>

text \<open>
  The definitions below are not part of the program; the lemmas and theorems use them to
  talk about it. \<open>held p cs\<close> is the collections of \<open>cs\<close> whose path is \<open>p\<close>, in
  order. \<open>fresh ld p\<close> is the collection that the load branch (lines 93 to 108) adds:
  the loader's collection, or the placeholder when the loader fails. \<open>pick ld p cs\<close> is
  the collection one iteration adds when \<open>cs\<close> is the collections held for \<open>p\<close>.
  \<open>errorLines p ls\<close> counts the lines of \<open>ls\<close> at level \<open>Err\<close> that contain the path
  \<open>p\<close>.
\<close>

abbreviation held :: "path \<Rightarrow> MaterialCollection list \<Rightarrow> MaterialCollection list" where
  "held p cs \<equiv> filter (\<lambda>c. path c = p) cs"

definition fresh :: "loader \<Rightarrow> path \<Rightarrow> MaterialCollection" where
  "fresh ld p = (case ld p of Inl msg \<Rightarrow> MaterialCollection_path p | Inr c \<Rightarrow> c)"

definition pick :: "loader \<Rightarrow> path \<Rightarrow> MaterialCollection list \<Rightarrow> MaterialCollection" where
  "pick ld p cs = (case cs of [] \<Rightarrow> fresh ld p | c # _ \<Rightarrow> if loaded c then c else fresh ld p)"

definition errorLines :: "path \<Rightarrow> log_line list \<Rightarrow> nat" where
  "errorLines p ls = length (filter (\<lambda>l. fst l = Err \<and> Path p \<in> set (snd l)) ls)"

text \<open>
  \<open>reused p cs\<close>: the first collection of \<open>cs\<close> with path \<open>p\<close> exists and is loaded, the
  condition of the else branch at line 110. \<open>stepLines\<close> is the lines one iteration logs
  before it calls \<open>addTextureCollection\<close>.
\<close>

definition reused :: "path \<Rightarrow> MaterialCollection list \<Rightarrow> bool" where
  "reused p cs = (case held p cs of [] \<Rightarrow> False | c # _ \<Rightarrow> loaded c)"

definition stepLines :: "loader \<Rightarrow> path \<Rightarrow> MaterialCollection list \<Rightarrow> log_line list" where
  "stepLines ld p cs =
     (if reused p cs then []
      else case ld p of
             Inl msg \<Rightarrow>
               if held p cs = []
               then [(Err, [Str ''Could not load texture collection '', Str [CHR 0x27], Path p,
                            Str [CHR 0x27, CHR '':'', CHR '' ''], Str msg])]
               else []
           | Inr c \<Rightarrow>
               if materials c \<noteq> []
               then [(Info, [Str ''Loaded texture collection '', Str [CHR 0x27], Path p,
                             Str [CHR 0x27]])]
               else [])"

text \<open>
  \<open>prepareAll\<close> is the effect of the loop of \<open>prepare\<close> on the collections when every
  index is in range. \<open>toPrepare_valid\<close> is the invariant of the pending-prepare queue.
  \<open>pending cs\<close> is the indices of the collections of \<open>cs\<close> that are loaded and not
  prepared, in increasing order.
\<close>

definition prepareAll :: "int \<Rightarrow> int \<Rightarrow> nat list \<Rightarrow> MaterialCollection list \<Rightarrow> MaterialCollection list" where
  "prepareAll a b is cs = fold (\<lambda>i cs. cs[i := collection_prepare a b (cs ! i)]) is cs"

definition toPrepare_valid :: "MaterialManager \<Rightarrow> bool" where
  "toPrepare_valid m \<longleftrightarrow>
     (\<forall>i\<in>set (m_toPrepare m).
        i < length (m_collections m) \<and> loaded (m_collections m ! i) \<and>
        \<not> prepared (m_collections m ! i))"

definition pending :: "MaterialCollection list \<Rightarrow> nat list" where
  "pending cs = filter (\<lambda>i. loaded (cs ! i) \<and> \<not> prepared (cs ! i)) [0..<length cs]"

text \<open>
  \<open>generation ld paths m\<close> is the state of the loop of \<open>setTextureCollections\<close> when it
  ends: what is left of the previous generation, and the manager.
\<close>

abbreviation generation ::
  "loader \<Rightarrow> path list \<Rightarrow> MaterialManager \<Rightarrow> MaterialCollection list \<times> MaterialManager" where
  "generation ld paths m \<equiv> loadLoop ld paths (m_collections m, clear (m\<lparr>m_collections := []\<rparr>))"

subsection \<open>Concrete inputs\<close>

text \<open>
  A prepared collection \<open>a.tex\<close> with a material named \<open>X\<close>, a loaded collection
  \<open>b.tex\<close> with a material named \<open>x\<close>, a loader that knows \<open>b.tex\<close> only, and a manager
  that holds a given list of collections and nothing else. The filter settings are the
  values of \<^verbatim>\<open>GL_NEAREST\<close> and \<^verbatim>\<open>GL_LINEAR\<close>.
\<close>

definition ex_a :: MaterialCollection where
  "ex_a = \<lparr>path = ''a.tex'', materials = [\<lparr>name = ''X'', payload = 1\<rparr>], loaded = True,
           prepared = True, textureMode = Some (9728, 9729), prepareCount = 1\<rparr>"

definition ex_b :: MaterialCollection where
  "ex_b = \<lparr>path = ''b.tex'', materials = [\<lparr>name = ''x'', payload = 2\<rparr>], loaded = True,
           prepared = False, textureMode = None, prepareCount = 0\<rparr>"

definition ex_loader :: loader where
  "ex_loader p = (if p = ''b.tex'' then Inr ex_b else Inl ''no such directory'')"

definition ex_manager :: "MaterialCollection list \<Rightarrow> MaterialManager" where
  "ex_manager cs =
     \<lparr>m_logger = [], m_minFilter = 9728, m_magFilter = 9729, m_resetTextureMode = False,
      m_collections = cs, m_toPrepare = [], m_toRemove = [], m_texturesByName = [],
      m_textures = [], loadCalls = []\<rparr>"

section \<open>Lemmas\<close>

subsection \<open>Finding and erasing\<close>

lemma find_if_None_iff: "find_if P xs = None \<longleftrightarrow> filter P xs = []"
  by (induction xs) auto

lemma find_if_Some_bound: "find_if P xs = Some i \<Longrightarrow> i < length xs"
  by (induction xs arbitrary: i) (auto split: if_splits)

lemma find_if_Some_filter:
  "find_if P xs = Some i \<Longrightarrow> filter P xs = xs ! i # filter P (erase xs i)"
  by (induction xs arbitrary: i) (auto simp: erase_def split: if_splits)

lemma find_if_Some_other:
  "find_if P xs = Some i \<Longrightarrow> (\<And>x. Q x \<Longrightarrow> \<not> P x) \<Longrightarrow> filter Q (erase xs i) = filter Q xs"
  by (induction xs arbitrary: i) (auto simp: erase_def split: if_splits)

lemma find_if_Some_iff:
  "find_if P xs = Some i \<longleftrightarrow> i < length xs \<and> P (xs ! i) \<and> (\<forall>j<i. \<not> P (xs ! j))"
proof (induction xs arbitrary: i)
  case Nil
  then show ?case by simp
next
  case (Cons x xs)
  show ?case
  proof (cases "P x")
    case True
    then show ?thesis by (cases i) auto
  next
    case False
    show ?thesis
    proof (cases i)
      case 0
      with False show ?thesis by auto
    next
      case (Suc k)
      have "(\<forall>j<Suc k. \<not> P ((x # xs) ! j)) \<longleftrightarrow> (\<forall>j<k. \<not> P (xs ! j))"
        using False by (auto simp: less_Suc_eq_0_disj)
      with False Suc Cons.IH [of k] show ?thesis by auto
    qed
  qed
qed


subsection \<open>One step of the loop\<close>

lemma log_fields:
  "m_logger (log lvl ps m) = m_logger m @ [(lvl, ps)]"
  "m_collections (log lvl ps m) = m_collections m"
  "m_toPrepare (log lvl ps m) = m_toPrepare m"
  "loadCalls (log lvl ps m) = loadCalls m"
  "m_toRemove (log lvl ps m) = m_toRemove m"
  "m_minFilter (log lvl ps m) = m_minFilter m"
  "m_magFilter (log lvl ps m) = m_magFilter m"
  "m_resetTextureMode (log lvl ps m) = m_resetTextureMode m"
  "m_texturesByName (log lvl ps m) = m_texturesByName m"
  "m_textures (log lvl ps m) = m_textures m"
  by (simp_all add: log_def)

lemma MaterialCollection_path_fields:
  "path (MaterialCollection_path p) = p"
  "materials (MaterialCollection_path p) = []"
  "loaded (MaterialCollection_path p) = False"
  "prepared (MaterialCollection_path p) = False"
  by (simp_all add: MaterialCollection_path_def)

lemma addTextureCollection_fields:
  "m_collections (addTextureCollection c m) = m_collections m @ [c]"
  "m_toPrepare (addTextureCollection c m) =
     m_toPrepare m @ (if loaded c \<and> \<not> prepared c then [length (m_collections m)] else [])"
  "m_logger (addTextureCollection c m) =
     m_logger m @ [(Debug, [Str ''Added texture collection '', Path (path c)])]"
  "loadCalls (addTextureCollection c m) = loadCalls m"
  "m_toRemove (addTextureCollection c m) = m_toRemove m"
  "m_minFilter (addTextureCollection c m) = m_minFilter m"
  "m_magFilter (addTextureCollection c m) = m_magFilter m"
  "m_resetTextureMode (addTextureCollection c m) = m_resetTextureMode m"
  "m_texturesByName (addTextureCollection c m) = m_texturesByName m"
  "m_textures (addTextureCollection c m) = m_textures m"
  by (simp_all add: addTextureCollection_def log_def Let_def)

lemma loadOrReuse_snapshot:
  "held q (fst (loadOrReuse ld p (cs, m))) = (if q = p then tl (held p cs) else held q cs)"
proof (cases "find_if (\<lambda>c. path c = p) cs")
  case None
  then have "held p cs = []" by (simp add: find_if_None_iff)
  with None show ?thesis by (simp add: loadOrReuse_def Let_def)
next
  case (Some i)
  have "held p cs = cs ! i # held p (erase cs i)"
    using Some by (rule find_if_Some_filter)
  moreover have "q \<noteq> p \<Longrightarrow> held q (erase cs i) = held q cs"
    using Some by (rule find_if_Some_other) simp
  ultimately show ?thesis using Some by (simp add: loadOrReuse_def Let_def)
qed

lemma loadOrReuse_collections:
  "m_collections (snd (loadOrReuse ld p (cs, m))) = m_collections m @ [pick ld p (held p cs)]"
proof (cases "find_if (\<lambda>c. path c = p) cs")
  case None
  then have "held p cs = []" by (simp add: find_if_None_iff)
  with None show ?thesis
    by (simp add: loadOrReuse_def Let_def pick_def fresh_def addTextureCollection_fields
        log_fields MaterialCollection_path_fields split: sum.splits)
next
  case (Some i)
  have "held p cs = cs ! i # held p (erase cs i)"
    using Some by (rule find_if_Some_filter)
  with Some show ?thesis
    by (simp add: loadOrReuse_def Let_def pick_def fresh_def addTextureCollection_fields
        log_fields MaterialCollection_path_fields split: sum.splits)
qed


lemma loadOrReuse_manager:
  "snd (loadOrReuse ld p (cs, m)) =
     addTextureCollection (pick ld p (held p cs))
       (m\<lparr>loadCalls := loadCalls m @ (if reused p cs then [] else [p]),
          m_logger := m_logger m @ stepLines ld p cs\<rparr>)"
proof (cases "find_if (\<lambda>c. path c = p) cs")
  case None
  then have "held p cs = []" by (simp add: find_if_None_iff)
  with None show ?thesis
    by (simp add: loadOrReuse_def Let_def pick_def fresh_def reused_def stepLines_def log_def
        MaterialCollection_path_fields split: sum.splits)
next
  case (Some i)
  have "held p cs = cs ! i # held p (erase cs i)"
    using Some by (rule find_if_Some_filter)
  with Some show ?thesis
    by (simp add: loadOrReuse_def Let_def pick_def fresh_def reused_def stepLines_def log_def
        MaterialCollection_path_fields split: sum.splits)
qed


subsection \<open>The whole loop\<close>

lemma loadLoop_step:
  "loadLoop ld (p # ps) (cs, m) =
     loadLoop ld ps (fst (loadOrReuse ld p (cs, m)), snd (loadOrReuse ld p (cs, m)))"
  by simp

lemma loadLoop_snapshot:
  "held q (fst (loadLoop ld ps (cs, m))) = drop (count_list ps q) (held q cs)"
proof (induction ps arbitrary: cs m)
  case Nil
  then show ?case by simp
next
  case (Cons p ps)
  show ?case
    unfolding loadLoop_step Cons.IH loadOrReuse_snapshot
    by (simp add: drop_Suc)
qed

lemma loadLoop_collections:
  "\<exists>new. m_collections (snd (loadLoop ld ps (cs, m))) = m_collections m @ new \<and>
     length new = length ps"
proof (induction ps arbitrary: cs m)
  case Nil
  then show ?case by simp
next
  case (Cons p ps)
  obtain new where
    "m_collections (snd (loadLoop ld (p # ps) (cs, m))) =
       m_collections (snd (loadOrReuse ld p (cs, m))) @ new" "length new = length ps"
    unfolding loadLoop_step using Cons.IH by blast
  then show ?case
    by (simp add: loadOrReuse_collections)
qed

lemma loadLoop_length:
  "length (m_collections (snd (loadLoop ld ps (cs, m)))) = length (m_collections m) + length ps"
  using loadLoop_collections [of ld ps cs m] by auto

lemma loadLoop_prefix:
  "i < length (m_collections m) \<Longrightarrow>
     m_collections (snd (loadLoop ld ps (cs, m))) ! i = m_collections m ! i"
  using loadLoop_collections [of ld ps cs m] by (auto simp: nth_append)

lemma loadLoop_nth:
  "k < length ps \<Longrightarrow>
     m_collections (snd (loadLoop ld ps (cs, m))) ! (length (m_collections m) + k) =
       pick ld (ps ! k) (drop (count_list (take k ps) (ps ! k)) (held (ps ! k) cs))"
proof (induction ps arbitrary: cs m k)
  case Nil
  then show ?case by simp
next
  case (Cons p ps)
  let ?s = "loadOrReuse ld p (cs, m)"
  have len: "length (m_collections (snd ?s)) = Suc (length (m_collections m))"
    by (simp add: loadOrReuse_collections)
  show ?case
  proof (cases k)
    case 0
    have "m_collections (snd (loadLoop ld (p # ps) (cs, m))) ! length (m_collections m) =
          m_collections (snd ?s) ! length (m_collections m)"
      unfolding loadLoop_step by (rule loadLoop_prefix) (simp add: len)
    with 0 show ?thesis by (simp add: loadOrReuse_collections)
  next
    case (Suc j)
    with Cons.prems have j: "j < length ps" by simp
    have "m_collections (snd (loadLoop ld (p # ps) (cs, m))) ! (length (m_collections (snd ?s)) + j) =
          pick ld (ps ! j) (drop (count_list (take j ps) (ps ! j)) (held (ps ! j) (fst ?s)))"
      unfolding loadLoop_step by (rule Cons.IH [OF j])
    then show ?thesis
      using Suc by (simp add: len loadOrReuse_snapshot drop_Suc)
  qed
qed


lemma loadOrReuse_fields:
  "loadCalls (snd (loadOrReuse ld p (cs, m))) = loadCalls m @ (if reused p cs then [] else [p])"
  "m_logger (snd (loadOrReuse ld p (cs, m))) =
     m_logger m @ stepLines ld p cs @
       [(Debug, [Str ''Added texture collection '', Path (path (pick ld p (held p cs)))])]"
  "m_toPrepare (snd (loadOrReuse ld p (cs, m))) =
     m_toPrepare m @
       (if loaded (pick ld p (held p cs)) \<and> \<not> prepared (pick ld p (held p cs))
        then [length (m_collections m)] else [])"
  "m_toRemove (snd (loadOrReuse ld p (cs, m))) = m_toRemove m"
  "m_minFilter (snd (loadOrReuse ld p (cs, m))) = m_minFilter m"
  "m_magFilter (snd (loadOrReuse ld p (cs, m))) = m_magFilter m"
  "m_resetTextureMode (snd (loadOrReuse ld p (cs, m))) = m_resetTextureMode m"
  "m_texturesByName (snd (loadOrReuse ld p (cs, m))) = m_texturesByName m"
  "m_textures (snd (loadOrReuse ld p (cs, m))) = m_textures m"
  by (simp_all add: loadOrReuse_manager addTextureCollection_fields)

lemma loadLoop_frame:
  "m_toRemove (snd (loadLoop ld ps (cs, m))) = m_toRemove m"
  "m_minFilter (snd (loadLoop ld ps (cs, m))) = m_minFilter m"
  "m_magFilter (snd (loadLoop ld ps (cs, m))) = m_magFilter m"
  "m_resetTextureMode (snd (loadLoop ld ps (cs, m))) = m_resetTextureMode m"
  "m_texturesByName (snd (loadLoop ld ps (cs, m))) = m_texturesByName m"
  "m_textures (snd (loadLoop ld ps (cs, m))) = m_textures m"
proof (induction ps arbitrary: cs m)
  case Nil
  {
    case 1 show ?case by simp
  next
    case 2 show ?case by simp
  next
    case 3 show ?case by simp
  next
    case 4 show ?case by simp
  next
    case 5 show ?case by simp
  next
    case 6 show ?case by simp
  }
next
  case (Cons p ps)
  {
    case 1 show ?case unfolding loadLoop_step Cons.IH by (simp add: loadOrReuse_fields)
  next
    case 2 show ?case unfolding loadLoop_step Cons.IH by (simp add: loadOrReuse_fields)
  next
    case 3 show ?case unfolding loadLoop_step Cons.IH by (simp add: loadOrReuse_fields)
  next
    case 4 show ?case unfolding loadLoop_step Cons.IH by (simp add: loadOrReuse_fields)
  next
    case 5 show ?case unfolding loadLoop_step Cons.IH by (simp add: loadOrReuse_fields)
  next
    case 6 show ?case unfolding loadLoop_step Cons.IH by (simp add: loadOrReuse_fields)
  }
qed

lemma loadLoop_loadCalls:
  "\<exists>calls. loadCalls (snd (loadLoop ld ps (cs, m))) = loadCalls m @ calls \<and>
     (\<forall>q. count_list calls q =
        count_list ps q - length (filter loaded (take (count_list ps q) (held q cs))))"
proof (induction ps arbitrary: cs m)
  case Nil
  then show ?case by simp
next
  case (Cons p ps)
  let ?s = "loadOrReuse ld p (cs, m)"
  obtain calls where calls:
    "loadCalls (snd (loadLoop ld (p # ps) (cs, m))) = loadCalls (snd ?s) @ calls"
    "\<And>q. count_list calls q =
       count_list ps q - length (filter loaded (take (count_list ps q) (held q (fst ?s))))"
    unfolding loadLoop_step using Cons.IH by blast
  let ?new = "(if reused p cs then [] else [p]) @ calls"
  have "loadCalls (snd (loadLoop ld (p # ps) (cs, m))) = loadCalls m @ ?new"
    using calls(1) by (simp add: loadOrReuse_fields)
  moreover have "count_list ?new q =
      count_list (p # ps) q - length (filter loaded (take (count_list (p # ps) q) (held q cs)))"
    for q
  proof (cases "q = p")
    case False
    then show ?thesis by (simp add: calls(2) loadOrReuse_snapshot)
  next
    case True
    show ?thesis
    proof (cases "held p cs")
      case Nil
      then show ?thesis
        using True by (simp add: calls(2) loadOrReuse_snapshot reused_def)
    next
      case (Cons c rest)
      have le: "length (filter loaded (take (count_list ps p) rest)) \<le> count_list ps p"
        by (rule order_trans [OF length_filter_le]) simp
      show ?thesis
        using True Cons le by (simp add: calls(2) loadOrReuse_snapshot reused_def)
    qed
  qed
  ultimately show ?case by blast
qed

lemma errorLines_append: "errorLines q (xs @ ys) = errorLines q xs + errorLines q ys"
  by (simp add: errorLines_def)

lemma errorLines_stepLines:
  "errorLines q (stepLines ld p cs) = (if q = p \<and> held p cs = [] \<and> isl (ld p) then 1 else 0)"
  by (auto simp: errorLines_def stepLines_def reused_def split: sum.splits list.splits)

lemma loadLoop_logger:
  "\<exists>lines. m_logger (snd (loadLoop ld ps (cs, m))) = m_logger m @ lines \<and>
     (\<forall>q. errorLines q lines =
        (if isl (ld q) then count_list ps q - length (held q cs) else 0))"
proof (induction ps arbitrary: cs m)
  case Nil
  then show ?case by (simp add: errorLines_def)
next
  case (Cons p ps)
  let ?s = "loadOrReuse ld p (cs, m)"
  obtain lines where lines:
    "m_logger (snd (loadLoop ld (p # ps) (cs, m))) = m_logger (snd ?s) @ lines"
    "\<And>q. errorLines q lines =
       (if isl (ld q) then count_list ps q - length (held q (fst ?s)) else 0)"
    unfolding loadLoop_step using Cons.IH by blast
  let ?new = "stepLines ld p cs @
       [(Debug, [Str ''Added texture collection '', Path (path (pick ld p (held p cs)))])] @ lines"
  have "m_logger (snd (loadLoop ld (p # ps) (cs, m))) = m_logger m @ ?new"
    using lines(1) by (simp add: loadOrReuse_fields)
  moreover have "errorLines q ?new =
      (if isl (ld q) then count_list (p # ps) q - length (held q cs) else 0)" for q
  proof -
    have dbg: "errorLines q ((Debug, ps') # ls) = errorLines q ls" for ps' ls
      by (simp add: errorLines_def)
    show ?thesis
      by (cases "held p cs")
        (auto simp: errorLines_append errorLines_stepLines dbg lines(2) loadOrReuse_snapshot)
  qed
  ultimately show ?case by blast
qed


subsection \<open>The name index\<close>

lemma map_of_map_assign:
  "map_of (map_assign k v kvs) k' = (if k' = k then Some v else map_of kvs k')"
  by (induction kvs) auto

lemma index_materials_none:
  "\<forall>t\<in>set ts. str_to_lower (name t) \<noteq> key \<Longrightarrow>
     map_of (index_materials ci mi ts tm) key = map_of tm key"
  by (induction ts arbitrary: mi tm) (auto simp: map_of_map_assign)

lemma index_materials_last:
  "ts = xs @ t # ys \<Longrightarrow> str_to_lower (name t) = key \<Longrightarrow>
   \<forall>y\<in>set ys. str_to_lower (name y) \<noteq> key \<Longrightarrow>
     map_of (index_materials ci mi ts tm) key = Some (ci, mi + length xs)"
proof (induction xs arbitrary: ts mi tm)
  case Nil
  then show ?case by (simp add: index_materials_none map_of_map_assign)
next
  case (Cons x xs)
  from Cons.prems(1) have ts: "ts = x # (xs @ t # ys)" by simp
  show ?case
    unfolding ts index_materials.simps
    using Cons.IH [OF refl Cons.prems(2,3)] by simp
qed

lemma index_collections_none:
  "\<forall>c\<in>set cs. \<forall>t\<in>set (materials c). str_to_lower (name t) \<noteq> key \<Longrightarrow>
     map_of (index_collections ci cs tm) key = map_of tm key"
  by (induction cs arbitrary: ci tm) (auto simp: index_materials_none)

lemma index_collections_last:
  "cs = pre @ c # post \<Longrightarrow> materials c = xs @ t # ys \<Longrightarrow> str_to_lower (name t) = key \<Longrightarrow>
   \<forall>y\<in>set ys. str_to_lower (name y) \<noteq> key \<Longrightarrow>
   \<forall>c'\<in>set post. \<forall>y\<in>set (materials c'). str_to_lower (name y) \<noteq> key \<Longrightarrow>
     map_of (index_collections ci cs tm) key = Some (ci + length pre, length xs)"
proof (induction pre arbitrary: cs ci tm)
  case Nil
  then show ?case
    by (simp add: index_collections_none index_materials_last)
next
  case (Cons x pre)
  from Cons.prems(1) have cs: "cs = x # (pre @ c # post)" by simp
  show ?case
    unfolding cs index_collections.simps
    using Cons.IH [OF refl Cons.prems(2-5)] by simp
qed

lemma last_match:
  "\<exists>t\<in>set ts. P t \<Longrightarrow> \<exists>xs t ys. ts = xs @ t # ys \<and> P t \<and> (\<forall>y\<in>set ys. \<not> P y)"
  using split_list_last_prop [of ts P] by blast


subsection \<open>Commit\<close>

lemma prepareAll_simps:
  "prepareAll a b [] cs = cs"
  "prepareAll a b (i # is) cs = prepareAll a b is (cs[i := collection_prepare a b (cs ! i)])"
  by (simp_all add: prepareAll_def)

lemma prepareAll_other: "i \<notin> set is \<Longrightarrow> prepareAll a b is cs ! i = cs ! i"
  by (induction "is" arbitrary: cs) (auto simp: prepareAll_simps)

lemma prepareAll_once:
  "distinct is \<Longrightarrow> i \<in> set is \<Longrightarrow> i < length cs \<Longrightarrow>
     prepareAll a b is cs ! i = collection_prepare a b (cs ! i)"
proof (induction "is" arbitrary: cs)
  case Nil
  then show ?case by simp
next
  case (Cons j js)
  show ?case
  proof (cases "i = j")
    case True
    with Cons.prems show ?thesis by (simp add: prepareAll_simps prepareAll_other)
  next
    case False
    with Cons.prems Cons.IH [of "cs[j := collection_prepare a b (cs ! j)]"] show ?thesis
      by (simp add: prepareAll_simps)
  qed
qed

lemma map_path_prepareAll: "map path (prepareAll a b is cs) = map path cs"
proof (induction "is" arbitrary: cs)
  case Nil
  then show ?case by (simp add: prepareAll_simps)
next
  case (Cons j js)
  have "map path (cs[j := collection_prepare a b (cs ! j)]) = map path cs"
  proof (cases "j < length cs")
    case True
    then show ?thesis
      by (simp add: map_update collection_prepare_def list_update_same_conv)
  next
    case False
    then show ?thesis by (simp add: list_update_beyond)
  qed
  then show ?case by (simp add: prepareAll_simps Cons.IH)
qed

lemma prepareLoop_in_range:
  "\<forall>i\<in>set is. i < length (m_collections m) \<Longrightarrow>
     prepareLoop is m =
       Inr (m\<lparr>m_collections := prepareAll (m_minFilter m) (m_magFilter m) is (m_collections m)\<rparr>)"
proof (induction "is" arbitrary: m)
  case Nil
  then show ?case by (simp add: prepareAll_simps)
next
  case (Cons i "is")
  let ?m = "m\<lparr>m_collections := (m_collections m)
               [i := collection_prepare (m_minFilter m) (m_magFilter m) (m_collections m ! i)]\<rparr>"
  have "\<forall>j\<in>set is. j < length (m_collections ?m)"
    using Cons.prems by simp
  from Cons.IH [OF this] Cons.prems show ?case
    by (simp add: prepareAll_simps)
qed

lemma resetTextureMode_fields:
  "m_toPrepare (resetTextureMode m) = m_toPrepare m"
  "m_toRemove (resetTextureMode m) = m_toRemove m"
  "m_minFilter (resetTextureMode m) = m_minFilter m"
  "m_magFilter (resetTextureMode m) = m_magFilter m"
  "m_logger (resetTextureMode m) = m_logger m"
  "loadCalls (resetTextureMode m) = loadCalls m"
  "m_texturesByName (resetTextureMode m) = m_texturesByName m"
  "m_textures (resetTextureMode m) = m_textures m"
  "length (m_collections (resetTextureMode m)) = length (m_collections m)"
  "map path (m_collections (resetTextureMode m)) = map path (m_collections m)"
  by (simp_all add: resetTextureMode_def collection_setFilterMode_def)

lemma resetTextureMode_unprepared:
  "i < length (m_collections m) \<Longrightarrow> \<not> prepared (m_collections m ! i) \<Longrightarrow>
     m_collections (resetTextureMode m) ! i = m_collections m ! i"
  by (simp add: resetTextureMode_def collection_setFilterMode_def)

lemma commitChanges_in_range:
  assumes "\<forall>i\<in>set (m_toPrepare m). i < length (m_collections m)"
  shows "commitChanges m =
     Inr ((resetTextureMode m)
            \<lparr>m_collections := prepareAll (m_minFilter m) (m_magFilter m) (m_toPrepare m)
                                (m_collections (resetTextureMode m)),
             m_toPrepare := [], m_toRemove := []\<rparr>)"
proof -
  have "\<forall>i\<in>set (m_toPrepare (resetTextureMode m)). i < length (m_collections (resetTextureMode m))"
    using assms by (simp add: resetTextureMode_fields)
  from prepareLoop_in_range [OF this] show ?thesis
    by (simp add: commitChanges_def prepare_def resetTextureMode_fields)
qed


subsection \<open>The pending-prepare queue\<close>

lemma pending_snoc:
  "pending (cs @ [c]) = pending cs @ (if loaded c \<and> \<not> prepared c then [length cs] else [])"
proof -
  have "filter (\<lambda>i. loaded ((cs @ [c]) ! i) \<and> \<not> prepared ((cs @ [c]) ! i)) [0..<length cs] =
        filter (\<lambda>i. loaded (cs ! i) \<and> \<not> prepared (cs ! i)) [0..<length cs]"
    by (rule filter_cong) (simp_all add: nth_append)
  then show ?thesis by (simp add: pending_def)
qed

lemma loadLoop_pending:
  "m_toPrepare m = pending (m_collections m) \<Longrightarrow>
     m_toPrepare (snd (loadLoop ld ps (cs, m))) = pending (m_collections (snd (loadLoop ld ps (cs, m))))"
proof (induction ps arbitrary: cs m)
  case Nil
  then show ?case by simp
next
  case (Cons p ps)
  have "m_toPrepare (snd (loadOrReuse ld p (cs, m))) =
        pending (m_collections (snd (loadOrReuse ld p (cs, m))))"
    using Cons.prems by (simp add: loadOrReuse_fields loadOrReuse_collections pending_snoc)
  then show ?case
    unfolding loadLoop_step by (rule Cons.IH)
qed

lemma pending_set:
  "i \<in> set (pending cs) \<longleftrightarrow> i < length cs \<and> loaded (cs ! i) \<and> \<not> prepared (cs ! i)"
  by (auto simp: pending_def)

lemma distinct_pending: "distinct (pending cs)"
  by (simp add: pending_def)

subsection \<open>Reconciliation as a whole\<close>

lemma updateTextures_fields:
  "m_collections (updateTextures m) = m_collections m"
  "m_toPrepare (updateTextures m) = m_toPrepare m"
  "m_toRemove (updateTextures m) = m_toRemove m"
  "m_logger (updateTextures m) = m_logger m"
  "loadCalls (updateTextures m) = loadCalls m"
  "m_minFilter (updateTextures m) = m_minFilter m"
  "m_magFilter (updateTextures m) = m_magFilter m"
  "m_resetTextureMode (updateTextures m) = m_resetTextureMode m"
  "m_texturesByName (updateTextures m) = index_collections 0 (m_collections m) []"
  "m_textures (updateTextures m) = map snd (index_collections 0 (m_collections m) [])"
  by (simp_all add: updateTextures_def Let_def)

lemma setTextureCollections_fields:
  "m_collections (setTextureCollections paths ld m) = m_collections (snd (generation ld paths m))"
  "m_toPrepare (setTextureCollections paths ld m) = m_toPrepare (snd (generation ld paths m))"
  "m_logger (setTextureCollections paths ld m) = m_logger (snd (generation ld paths m))"
  "loadCalls (setTextureCollections paths ld m) = loadCalls (snd (generation ld paths m))"
  "m_toRemove (setTextureCollections paths ld m) = m_toRemove m @ fst (generation ld paths m)"
  "m_minFilter (setTextureCollections paths ld m) = m_minFilter m"
  "m_magFilter (setTextureCollections paths ld m) = m_magFilter m"
  "m_resetTextureMode (setTextureCollections paths ld m) = m_resetTextureMode m"
  by (simp_all add: setTextureCollections_def Let_def updateTextures_fields loadLoop_frame clear_def)

lemma setTextureCollections_length:
  "length (m_collections (setTextureCollections paths ld m)) = length paths"
  by (simp add: setTextureCollections_fields loadLoop_length clear_def)

lemma setTextureCollections_nth:
  "k < length paths \<Longrightarrow>
     m_collections (setTextureCollections paths ld m) ! k =
       pick ld (paths ! k)
         (drop (count_list (take k paths) (paths ! k)) (held (paths ! k) (m_collections m)))"
  using loadLoop_nth [of k paths ld "m_collections m" "clear (m\<lparr>m_collections := []\<rparr>)"]
  by (simp add: setTextureCollections_fields clear_def)

lemma setTextureCollections_loadCalls:
  "\<exists>calls. loadCalls (setTextureCollections paths ld m) = loadCalls m @ calls \<and>
     (\<forall>q. count_list calls q =
        count_list paths q -
          length (filter loaded (take (count_list paths q) (held q (m_collections m)))))"
  using loadLoop_loadCalls [of ld paths "m_collections m" "clear (m\<lparr>m_collections := []\<rparr>)"]
  by (simp add: setTextureCollections_fields clear_def)

lemma setTextureCollections_logger:
  "\<exists>lines. m_logger (setTextureCollections paths ld m) = m_logger m @ lines \<and>
     (\<forall>q. errorLines q lines =
        (if isl (ld q) then count_list paths q - length (held q (m_collections m)) else 0))"
  using loadLoop_logger [of ld paths "m_collections m" "clear (m\<lparr>m_collections := []\<rparr>)"]
  by (simp add: setTextureCollections_fields clear_def)

lemma setTextureCollections_toRemove:
  "held q (drop (length (m_toRemove m)) (m_toRemove (setTextureCollections paths ld m))) =
     drop (count_list paths q) (held q (m_collections m))"
  by (simp add: setTextureCollections_fields loadLoop_snapshot)

lemma setTextureCollections_pending:
  "m_toPrepare (setTextureCollections paths ld m) =
     pending (m_collections (setTextureCollections paths ld m))"
  unfolding setTextureCollections_fields
  by (rule loadLoop_pending) (simp add: clear_def pending_def)

subsection \<open>Further lemmas for the properties\<close>

lemmas ex_defs = ex_a_def ex_b_def ex_loader_def ex_manager_def

lemmas run_defs = setTextureCollections_def loadOrReuse_def addTextureCollection_def log_def
  clear_def updateTextures_def erase_def MaterialCollection_path_def Let_def

lemma count_list_take_once:
  assumes "k < length xs" "xs ! k = p" "count_list xs p = 1"
  shows "count_list (take k xs) p = 0"
proof -
  have "xs = take k xs @ xs ! k # drop (Suc k) xs"
    using assms(1) by (simp add: id_take_nth_drop)
  then have "count_list xs p = count_list (take k xs) p + count_list (xs ! k # drop (Suc k) xs) p"
    by (metis count_list_append)
  with assms(2,3) show ?thesis by simp
qed

lemma pick_drop_load:
  "\<not> (n < length H \<and> loaded (H ! n)) \<Longrightarrow> pick ld p (drop n H) = fresh ld p"
proof (cases "n < length H")
  case True
  assume "\<not> (n < length H \<and> loaded (H ! n))"
  with True have "\<not> loaded (H ! n)" by simp
  moreover from True have "drop n H = H ! n # drop (Suc n) H"
    by (simp add: Cons_nth_drop_Suc)
  ultimately show ?thesis by (simp add: pick_def)
next
  case False
  then show ?thesis by (simp add: pick_def)
qed

lemma path_pick:
  assumes "\<forall>q c. ld q = Inr c \<longrightarrow> path c = q"
  shows "path (pick ld p (drop n (held p cs))) = p"
proof -
  have f: "path (fresh ld p) = p"
    using assms by (simp add: fresh_def MaterialCollection_path_fields split: sum.splits)
  show ?thesis
  proof (cases "drop n (held p cs)")
    case Nil
    then show ?thesis by (simp add: pick_def f)
  next
    case (Cons c rest)
    then have "c \<in> set (drop n (held p cs))" by simp
    then have "c \<in> set (held p cs)" by (rule in_set_dropD)
    then have "path c = p" by simp
    with Cons show ?thesis by (simp add: pick_def f)
  qed
qed

lemma setTextureCollections_paths:
  assumes "\<forall>q c. ld q = Inr c \<longrightarrow> path c = q"
  shows "map path (m_collections (setTextureCollections paths ld m)) = paths"
proof (rule nth_equalityI)
  show "length (map path (m_collections (setTextureCollections paths ld m))) = length paths"
    by (simp add: setTextureCollections_length)
next
  fix k
  assume "k < length (map path (m_collections (setTextureCollections paths ld m)))"
  then have k: "k < length paths" by (simp add: setTextureCollections_length)
  then show "map path (m_collections (setTextureCollections paths ld m)) ! k = paths ! k"
    by (simp add: setTextureCollections_length setTextureCollections_nth path_pick [OF assms])
qed

lemma setTextureCollections_in_range:
  "\<forall>i\<in>set (m_toPrepare (setTextureCollections paths ld m)).
     i < length (m_collections (setTextureCollections paths ld m))"
  by (simp add: setTextureCollections_pending pending_set)

lemma commitChanges_fields:
  assumes "\<forall>i\<in>set (m_toPrepare m). i < length (m_collections m)"
  shows "\<exists>m'. commitChanges m = Inr m' \<and> m_toRemove m' = [] \<and> m_toPrepare m' = [] \<and>
           map path (m_collections m') = map path (m_collections m) \<and>
           m_collections m' =
             prepareAll (m_minFilter m) (m_magFilter m) (m_toPrepare m)
               (m_collections (resetTextureMode m))"
  unfolding commitChanges_in_range [OF assms]
  by (simp add: map_path_prepareAll resetTextureMode_fields)

lemma count_list_distinct: "distinct xs \<Longrightarrow> x \<in> set xs \<Longrightarrow> count_list xs x = 1"
  by (induction xs) auto

lemma commitChanges_prepares:
  assumes q: "m_toPrepare m = pending (m_collections m)"
    and i: "i < length (m_collections m)" "loaded (m_collections m ! i)"
      "\<not> prepared (m_collections m ! i)"
  shows "\<exists>m'. commitChanges m = Inr m' \<and> m_toPrepare m' = [] \<and>
           m_collections m' ! i =
             collection_prepare (m_minFilter m) (m_magFilter m) (m_collections m ! i)"
proof -
  have range: "\<forall>j\<in>set (m_toPrepare m). j < length (m_collections m)"
    by (simp add: q pending_set)
  obtain m' where m': "commitChanges m = Inr m'" "m_toPrepare m' = []"
    "m_collections m' = prepareAll (m_minFilter m) (m_magFilter m) (m_toPrepare m)
                          (m_collections (resetTextureMode m))"
    using commitChanges_fields [OF range] by blast
  have "i \<in> set (m_toPrepare m)"
    using i by (simp add: q pending_set)
  moreover have "distinct (m_toPrepare m)"
    by (simp add: q distinct_pending)
  moreover have "i < length (m_collections (resetTextureMode m))"
    using i(1) by (simp add: resetTextureMode_fields)
  ultimately have "m_collections m' ! i =
      collection_prepare (m_minFilter m) (m_magFilter m) (m_collections (resetTextureMode m) ! i)"
    unfolding m'(3) by (simp add: prepareAll_once)
  then show ?thesis
    using m'(1,2) i by (simp add: resetTextureMode_unprepared)
qed

lemma toPrepare_valid_add:
  assumes "toPrepare_valid m"
  shows "toPrepare_valid (addTextureCollection c m)"
  unfolding toPrepare_valid_def
proof
  fix i
  assume "i \<in> set (m_toPrepare (addTextureCollection c m))"
  then consider "i \<in> set (m_toPrepare m)"
    | "i = length (m_collections m)" "loaded c" "\<not> prepared c"
    by (auto simp: addTextureCollection_fields split: if_splits)
  then show "i < length (m_collections (addTextureCollection c m)) \<and>
      loaded (m_collections (addTextureCollection c m) ! i) \<and>
      \<not> prepared (m_collections (addTextureCollection c m) ! i)"
  proof cases
    case 1
    with assms have "i < length (m_collections m)" "loaded (m_collections m ! i)"
      "\<not> prepared (m_collections m ! i)"
      by (simp_all add: toPrepare_valid_def)
    then show ?thesis
      by (simp add: addTextureCollection_fields nth_append)
  next
    case 2
    then show ?thesis by (simp add: addTextureCollection_fields)
  qed
qed

lemma toPrepare_valid_fold:
  "toPrepare_valid m \<Longrightarrow> toPrepare_valid (fold addTextureCollection cs m)"
  by (induction cs arbitrary: m) (simp_all add: toPrepare_valid_add)

lemma toPrepare_valid_setTextureCollections:
  "toPrepare_valid (setTextureCollections paths ld m)"
  by (simp add: toPrepare_valid_def setTextureCollections_pending pending_set)

lemma texture_updateTextures:
  "texture (updateTextures m) nm =
     map_of (index_collections 0 (m_collections m) []) (str_to_lower nm)"
  by (simp add: texture_def updateTextures_fields)

lemma texture_wins:
  assumes cs: "m_collections m = before @ c # after"
    and c: "\<exists>t\<in>set (materials c). str_to_lower (name t) = str_to_lower nm"
    and after: "\<forall>c'\<in>set after. \<forall>t\<in>set (materials c'). str_to_lower (name t) \<noteq> str_to_lower nm"
  shows "\<exists>j<length (materials c).
           texture (updateTextures m) nm = Some (length before, j) \<and>
           str_to_lower (name (materials c ! j)) = str_to_lower nm \<and>
           (\<forall>j'. j < j' \<and> j' < length (materials c) \<longrightarrow>
                 str_to_lower (name (materials c ! j')) \<noteq> str_to_lower nm)"
proof -
  from last_match [OF c] obtain xs t ys where split:
    "materials c = xs @ t # ys" "str_to_lower (name t) = str_to_lower nm"
    "\<forall>y\<in>set ys. str_to_lower (name y) \<noteq> str_to_lower nm"
    by blast
  have "texture (updateTextures m) nm = Some (length before, length xs)"
    unfolding texture_updateTextures
    using index_collections_last [OF cs split after, of 0 "[]"] by simp
  moreover have "length xs < length (materials c)"
    by (simp add: split(1))
  moreover have "str_to_lower (name (materials c ! length xs)) = str_to_lower nm"
    by (simp add: split(1,2))
  moreover have "str_to_lower (name (materials c ! j')) \<noteq> str_to_lower nm"
    if "length xs < j'" "j' < length (materials c)" for j'
  proof -
    from that have "materials c ! j' = ys ! (j' - Suc (length xs))" "j' - Suc (length xs) < length ys"
      by (auto simp: split(1) nth_append nth_Cons')
    then have "materials c ! j' \<in> set ys" by simp
    with split(3) show ?thesis by blast
  qed
  ultimately show ?thesis by blast
qed

lemma lower_X: "str_to_lower ''X'' = ''x''" "str_to_lower ''x'' = ''x''" "str_to_lower ''y'' = ''y''"
  by code_simp+

section \<open>Properties\<close>

subsection \<open>Reuse of loaded collections\<close>

text \<open>
  C1 (as amended): let \<open>p\<close> be a path that stands exactly once in the target list, at
  position \<open>k\<close>. If the first collection of the previous generation with path \<open>p\<close> is
  loaded, reconciliation does not call the loader for \<open>p\<close> and the new list holds that
  collection, unchanged, at position \<open>k\<close>. If the previous generation has no collection
  with path \<open>p\<close>, or the first one is a placeholder that is not loaded, the loader is
  called for \<open>p\<close> exactly once. The calls are the ones that reconciliation adds to the
  history of loader calls.
\<close>

theorem setTextureCollections_reuse:
  assumes "k < length paths" "paths ! k = p" "count_list paths p = 1"
  shows "(find_if (\<lambda>c. path c = p) (m_collections m) = Some j \<and> loaded (m_collections m ! j) \<longrightarrow>
            count_list (drop (length (loadCalls m))
                          (loadCalls (setTextureCollections paths ld m))) p = 0 \<and>
            m_collections (setTextureCollections paths ld m) ! k = m_collections m ! j) \<and>
         (find_if (\<lambda>c. path c = p) (m_collections m) = None \<or>
          find_if (\<lambda>c. path c = p) (m_collections m) = Some j \<and> \<not> loaded (m_collections m ! j) \<longrightarrow>
            count_list (drop (length (loadCalls m))
                          (loadCalls (setTextureCollections paths ld m))) p = 1)"
proof -
  let ?H = "held p (m_collections m)"
  obtain calls where calls:
    "loadCalls (setTextureCollections paths ld m) = loadCalls m @ calls"
    "count_list calls p = count_list paths p - length (filter loaded (take (count_list paths p) ?H))"
    using setTextureCollections_loadCalls [of paths ld m] by blast
  have n: "count_list calls p = 1 - length (filter loaded (take 1 ?H))"
    using calls(2) assms(3) by simp
  have nth: "m_collections (setTextureCollections paths ld m) ! k = pick ld p ?H"
    using setTextureCollections_nth [OF assms(1), of ld m] assms
    by (simp add: count_list_take_once)
  have "count_list calls p = 0 \<and> m_collections (setTextureCollections paths ld m) ! k = m_collections m ! j"
    if "find_if (\<lambda>c. path c = p) (m_collections m) = Some j" "loaded (m_collections m ! j)"
  proof -
    from find_if_Some_filter [OF that(1)] obtain rest where "?H = m_collections m ! j # rest"
      by blast
    with that(2) n nth show ?thesis by (simp add: pick_def)
  qed
  moreover have "count_list calls p = 1"
    if "find_if (\<lambda>c. path c = p) (m_collections m) = None"
    using that n by (simp add: find_if_None_iff)
  moreover have "count_list calls p = 1"
    if "find_if (\<lambda>c. path c = p) (m_collections m) = Some j" "\<not> loaded (m_collections m ! j)"
  proof -
    from find_if_Some_filter [OF that(1)] obtain rest where "?H = m_collections m ! j # rest"
      by blast
    with that(2) n show ?thesis by simp
  qed
  ultimately show ?thesis
    unfolding calls(1) by auto
qed

text \<open>
  The theorem at the target list \<open>a.tex, b.tex\<close> and a manager that holds the loaded
  collection \<open>a.tex\<close>: no call for \<open>a.tex\<close>, and the collection is first in the new list.
\<close>

theorem setTextureCollections_reuse_witness:
  "(0::nat) < length [''a.tex'', ''b.tex''] \<and> [''a.tex'', ''b.tex''] ! 0 = ''a.tex'' \<and>
   count_list [''a.tex'', ''b.tex''] ''a.tex'' = 1 \<and>
   find_if (\<lambda>c. path c = ''a.tex'') (m_collections (ex_manager [ex_a])) = Some 0 \<and>
   loaded (m_collections (ex_manager [ex_a]) ! 0) \<and>
   count_list (drop (length (loadCalls (ex_manager [ex_a])))
     (loadCalls (setTextureCollections [''a.tex'', ''b.tex''] ex_loader (ex_manager [ex_a]))))
     ''a.tex'' = 0 \<and>
   m_collections (setTextureCollections [''a.tex'', ''b.tex''] ex_loader (ex_manager [ex_a])) ! 0 =
     m_collections (ex_manager [ex_a]) ! 0"
  using setTextureCollections_reuse [of 0 "[''a.tex'', ''b.tex'']" "''a.tex''" "ex_manager [ex_a]" 0 ex_loader]
  by (simp add: ex_defs)

text \<open>
  The claim as written, for every path of the target list, fails when a path stands twice
  in it: the manager holds the loaded collection \<open>a.tex\<close>, the target list is
  \<open>a.tex, a.tex\<close>, and the loader is called for \<open>a.tex\<close> (at the second occurrence, where
  the previous generation has nothing left for it).
\<close>

theorem setTextureCollections_reuse_counterexample:
  "path (m_collections (ex_manager [ex_a]) ! 0) = ''a.tex'' \<and>
   loaded (m_collections (ex_manager [ex_a]) ! 0) \<and>
   loadCalls (ex_manager [ex_a]) = [] \<and>
   loadCalls (setTextureCollections [''a.tex'', ''a.tex''] ex_loader (ex_manager [ex_a])) = [''a.tex'']"
  by (simp add: ex_defs run_defs)

subsection \<open>Lookup by name\<close>

text \<open>
  C2: after \<open>updateTextures\<close> has rebuilt the name index, \<open>texture\<close> compares names
  without regard to letter case and a later collection wins. If the collections are
  \<open>before @ c # after\<close>, \<open>c\<close> has a material whose lower-cased name is the lower-cased
  query and no collection of \<open>after\<close> has one, the result is a material of \<open>c\<close> (the
  last one of \<open>c\<close> with such a name). In particular, for the collections \<open>[A, B]\<close> that
  both have such a material the result is one of \<open>B\<close>; for \<open>[A]\<close> alone it is one of
  \<open>A\<close>; and if no material of any collection has such a name the result is \<open>None\<close>,
  the null pointer.
\<close>

theorem texture_later_collection_wins:
  "(m_collections m = before @ c # after \<and>
    (\<exists>t\<in>set (materials c). str_to_lower (name t) = str_to_lower nm) \<and>
    (\<forall>c'\<in>set after. \<forall>t\<in>set (materials c'). str_to_lower (name t) \<noteq> str_to_lower nm) \<longrightarrow>
      (\<exists>j<length (materials c).
         texture (updateTextures m) nm = Some (length before, j) \<and>
         str_to_lower (name (materials c ! j)) = str_to_lower nm \<and>
         (\<forall>j'. j < j' \<and> j' < length (materials c) \<longrightarrow>
               str_to_lower (name (materials c ! j')) \<noteq> str_to_lower nm))) \<and>
   (m_collections m = [A, B] \<and>
    (\<exists>t\<in>set (materials A). str_to_lower (name t) = str_to_lower nm) \<and>
    (\<exists>t\<in>set (materials B). str_to_lower (name t) = str_to_lower nm) \<longrightarrow>
      (\<exists>j<length (materials B).
         texture (updateTextures m) nm = Some (1, j) \<and>
         str_to_lower (name (materials B ! j)) = str_to_lower nm)) \<and>
   (m_collections m = [A] \<and>
    (\<exists>t\<in>set (materials A). str_to_lower (name t) = str_to_lower nm) \<longrightarrow>
      (\<exists>j<length (materials A).
         texture (updateTextures m) nm = Some (0, j) \<and>
         str_to_lower (name (materials A ! j)) = str_to_lower nm)) \<and>
   ((\<forall>c\<in>set (m_collections m). \<forall>t\<in>set (materials c).
        str_to_lower (name t) \<noteq> str_to_lower nm) \<longrightarrow>
      texture (updateTextures m) nm = None)"
proof -
  have two: "\<exists>j<length (materials B).
         texture (updateTextures m) nm = Some (1, j) \<and>
         str_to_lower (name (materials B ! j)) = str_to_lower nm"
    if "m_collections m = [A, B]"
      "\<exists>t\<in>set (materials B). str_to_lower (name t) = str_to_lower nm"
    using texture_wins [of m "[A]" B "[]" nm] that by auto
  have one: "\<exists>j<length (materials A).
         texture (updateTextures m) nm = Some (0, j) \<and>
         str_to_lower (name (materials A ! j)) = str_to_lower nm"
    if "m_collections m = [A]"
      "\<exists>t\<in>set (materials A). str_to_lower (name t) = str_to_lower nm"
    using texture_wins [of m "[]" A "[]" nm] that by auto
  have none: "texture (updateTextures m) nm = None"
    if "\<forall>c\<in>set (m_collections m). \<forall>t\<in>set (materials c).
          str_to_lower (name t) \<noteq> str_to_lower nm"
    unfolding texture_updateTextures using index_collections_none [OF that, of 0 "[]"] by simp
  show ?thesis
    using texture_wins [of m before c after nm] two one none by blast
qed

text \<open>
  The theorem at the collections \<open>a.tex\<close> (a material named \<open>X\<close>) and \<open>b.tex\<close> (a
  material named \<open>x\<close>): the query \<open>x\<close> finds the material of \<open>b.tex\<close>, with \<open>a.tex\<close>
  alone that of \<open>a.tex\<close>, and the query \<open>y\<close> finds nothing.
\<close>

theorem texture_later_collection_wins_witness:
  "m_collections (ex_manager [ex_a, ex_b]) = [ex_a, ex_b] \<and>
   str_to_lower (name (materials ex_a ! 0)) = str_to_lower ''x'' \<and>
   str_to_lower (name (materials ex_b ! 0)) = str_to_lower ''x'' \<and>
   texture (updateTextures (ex_manager [ex_a, ex_b])) ''x'' = Some (1, 0) \<and>
   texture (updateTextures (ex_manager [ex_a])) ''x'' = Some (0, 0) \<and>
   texture (updateTextures (ex_manager [ex_a, ex_b])) ''y'' = None"
proof -
  have m: "m_collections (ex_manager [ex_a, ex_b]) = [ex_a, ex_b]"
    "m_collections (ex_manager [ex_a]) = [ex_a]"
    by (simp_all add: ex_manager_def)
  have a: "materials ex_a = [\<lparr>name = ''X'', payload = 1\<rparr>]"
    and b: "materials ex_b = [\<lparr>name = ''x'', payload = 2\<rparr>]"
    by (simp_all add: ex_a_def ex_b_def)
  show ?thesis
    using texture_later_collection_wins [of "ex_manager [ex_a, ex_b]" "[]" ex_a "[]" "''x''" ex_a ex_b]
      texture_later_collection_wins [of "ex_manager [ex_a]" "[]" ex_a "[]" "''x''" ex_a ex_b]
      texture_later_collection_wins [of "ex_manager [ex_a, ex_b]" "[]" ex_a "[]" "''y''" ex_a ex_b]
    by (simp add: m a b lower_X)
qed

subsection \<open>Placeholders for failed loads\<close>

text \<open>
  C3 (as amended): let the loader fail for the path \<open>p\<close>, and let \<open>k\<close> be a position of
  \<open>p\<close> in the target list at which the loader is called: with \<open>n\<close> the number of
  earlier occurrences of \<open>p\<close> in the list, the previous generation has no collection
  number \<open>n\<close> (counted from 0) with path \<open>p\<close>, or that collection is not loaded. Then
  the new list holds, at position \<open>k\<close>, the placeholder for \<open>p\<close>, with no materials and
  not loaded; reconciliation goes on, the new list having one collection for each target
  path; and the number of error lines containing \<open>p\<close> that reconciliation logs is the
  number of occurrences of \<open>p\<close> in the target list minus the number of collections with
  path \<open>p\<close> in the previous generation (zero when that is negative). So a failing load
  logs one error line when nothing is held for the path at that moment, and none when it
  retries a placeholder that was held.
\<close>

theorem setTextureCollections_placeholder:
  assumes "ld p = Inl msg" "k < length paths" "paths ! k = p"
    and "\<not> (count_list (take k paths) p < length (held p (m_collections m)) \<and>
            loaded (held p (m_collections m) ! count_list (take k paths) p))"
  shows "m_collections (setTextureCollections paths ld m) ! k = MaterialCollection_path p \<and>
         materials (m_collections (setTextureCollections paths ld m) ! k) = [] \<and>
         \<not> loaded (m_collections (setTextureCollections paths ld m) ! k) \<and>
         length (m_collections (setTextureCollections paths ld m)) = length paths \<and>
         errorLines p (drop (length (m_logger m)) (m_logger (setTextureCollections paths ld m))) =
           count_list paths p - length (held p (m_collections m))"
proof -
  have "m_collections (setTextureCollections paths ld m) ! k = fresh ld p"
    using setTextureCollections_nth [OF assms(2), of ld m] assms(3) pick_drop_load [OF assms(4)]
    by simp
  then have nth: "m_collections (setTextureCollections paths ld m) ! k = MaterialCollection_path p"
    using assms(1) by (simp add: fresh_def)
  obtain lines where lines:
    "m_logger (setTextureCollections paths ld m) = m_logger m @ lines"
    "errorLines p lines =
       (if isl (ld p) then count_list paths p - length (held p (m_collections m)) else 0)"
    using setTextureCollections_logger [of paths ld m] by blast
  show ?thesis
    using nth lines assms(1)
    by (simp add: MaterialCollection_path_fields setTextureCollections_length)
qed

text \<open>
  The theorem at the target list \<open>a.tex, c.tex\<close>, a loader that fails for \<open>c.tex\<close> and a
  manager that holds \<open>a.tex\<close> only: the placeholder is second in the new list and one
  error line for \<open>c.tex\<close> is logged.
\<close>

theorem setTextureCollections_placeholder_witness:
  "ex_loader ''c.tex'' = Inl ''no such directory'' \<and>
   (1::nat) < length [''a.tex'', ''c.tex''] \<and> [''a.tex'', ''c.tex''] ! 1 = ''c.tex'' \<and>
   m_collections (setTextureCollections [''a.tex'', ''c.tex''] ex_loader (ex_manager [ex_a])) ! 1 =
     MaterialCollection_path ''c.tex'' \<and>
   length (m_collections (setTextureCollections [''a.tex'', ''c.tex''] ex_loader (ex_manager [ex_a]))) = 2 \<and>
   errorLines ''c.tex'' (drop (length (m_logger (ex_manager [ex_a])))
     (m_logger (setTextureCollections [''a.tex'', ''c.tex''] ex_loader (ex_manager [ex_a])))) = 1"
  using setTextureCollections_placeholder
    [of ex_loader "''c.tex''" "''no such directory''" 1 "[''a.tex'', ''c.tex'']" "ex_manager [ex_a]"]
  by (simp add: ex_defs)

text \<open>
  The claim as written, one error line for every failing load, fails when the path was
  held as a placeholder: the manager holds the placeholder for \<open>c.tex\<close>, the loader is
  called for \<open>c.tex\<close> and fails, and the only line logged is the debug line of
  \<open>addTextureCollection\<close>.
\<close>

theorem setTextureCollections_placeholder_counterexample:
  "ex_loader ''c.tex'' = Inl ''no such directory'' \<and>
   m_collections (ex_manager [MaterialCollection_path ''c.tex'']) = [MaterialCollection_path ''c.tex''] \<and>
   loadCalls (setTextureCollections [''c.tex''] ex_loader
               (ex_manager [MaterialCollection_path ''c.tex''])) = [''c.tex''] \<and>
   m_logger (setTextureCollections [''c.tex''] ex_loader
               (ex_manager [MaterialCollection_path ''c.tex''])) =
     [(Debug, [Str ''Added texture collection '', Path ''c.tex''])]"
  by (simp add: ex_defs run_defs)

subsection \<open>Deferred removal\<close>

text \<open>
  C4 (as amended): reconciliation only appends to the removal queue. Every collection of the
  previous generation whose path is not in the target list is appended. For every path
  \<open>q\<close>, the appended collections with path \<open>q\<close> are those of the previous generation
  but the first \<open>n\<close>, where \<open>n\<close> is the number of occurrences of \<open>q\<close> in the target
  list: those first \<open>n\<close> were moved into the new list if loaded, and erased during
  reconciliation, without being queued, if they were placeholders replaced by a fresh
  load. The commit that follows succeeds, leaves the removal queue empty and leaves the
  paths of the live collections as they were; if the loader returns collections under the
  path it was asked for, no collection of the previous generation whose path is not in the
  target list is among the live collections afterwards.
\<close>

theorem setTextureCollections_removal:
  "take (length (m_toRemove m)) (m_toRemove (setTextureCollections paths ld m)) = m_toRemove m \<and>
   (\<forall>c\<in>set (m_collections m). path c \<notin> set paths \<longrightarrow>
      c \<in> set (drop (length (m_toRemove m)) (m_toRemove (setTextureCollections paths ld m)))) \<and>
   (\<forall>q. held q (drop (length (m_toRemove m)) (m_toRemove (setTextureCollections paths ld m))) =
      drop (count_list paths q) (held q (m_collections m))) \<and>
   (\<exists>m'. commitChanges (setTextureCollections paths ld m) = Inr m' \<and> m_toRemove m' = [] \<and>
      map path (m_collections m') = map path (m_collections (setTextureCollections paths ld m)) \<and>
      ((\<forall>q c. ld q = Inr c \<longrightarrow> path c = q) \<longrightarrow>
         (\<forall>c\<in>set (m_collections m). path c \<notin> set paths \<longrightarrow> c \<notin> set (m_collections m'))))"
proof -
  let ?m = "setTextureCollections paths ld m"
  let ?new = "drop (length (m_toRemove m)) (m_toRemove ?m)"
  have pre: "take (length (m_toRemove m)) (m_toRemove ?m) = m_toRemove m"
    by (simp add: setTextureCollections_fields)
  have held: "held q ?new = drop (count_list paths q) (held q (m_collections m))" for q
    by (rule setTextureCollections_toRemove)
  have absent: "c \<in> set ?new" if "c \<in> set (m_collections m)" "path c \<notin> set paths" for c
  proof -
    have "held (path c) ?new = held (path c) (m_collections m)"
      using that(2) by (simp add: held)
    moreover have "c \<in> set (held (path c) (m_collections m))"
      using that(1) by simp
    ultimately have "c \<in> set (held (path c) ?new)" by simp
    then show ?thesis by simp
  qed
  obtain m' where m':
    "commitChanges ?m = Inr m'" "m_toRemove m' = []"
    "map path (m_collections m') = map path (m_collections ?m)"
    using commitChanges_fields [OF setTextureCollections_in_range, of paths ld m] by blast
  have gone: "c \<notin> set (m_collections m')"
    if ld: "\<forall>q c. ld q = Inr c \<longrightarrow> path c = q" and c: "path c \<notin> set paths" for c
  proof
    assume "c \<in> set (m_collections m')"
    then have "path c \<in> set (map path (m_collections m'))" by simp
    then have "path c \<in> set paths"
      by (simp only: m'(3) setTextureCollections_paths [OF ld])
    with c show False by simp
  qed
  show ?thesis
    using pre held absent m' gone by blast
qed

text \<open>
  The theorem at the target list \<open>b.tex\<close> and a manager that holds \<open>a.tex\<close>: the
  collection \<open>a.tex\<close> is in the removal queue after reconciliation, and after the commit
  the queue is empty and \<open>a.tex\<close> is not a live collection.
\<close>

theorem setTextureCollections_removal_witness:
  "ex_a \<in> set (m_collections (ex_manager [ex_a])) \<and> path ex_a \<notin> set [''b.tex''] \<and>
   ex_a \<in> set (m_toRemove (setTextureCollections [''b.tex''] ex_loader (ex_manager [ex_a]))) \<and>
   (\<exists>m'. commitChanges (setTextureCollections [''b.tex''] ex_loader (ex_manager [ex_a])) = Inr m' \<and>
      m_toRemove m' = [] \<and> ex_a \<notin> set (m_collections m'))"
proof -
  have ld: "\<forall>q c. ex_loader q = Inr c \<longrightarrow> path c = q"
    by (simp add: ex_loader_def ex_b_def)
  have a: "ex_a \<in> set (m_collections (ex_manager [ex_a]))" "path ex_a \<notin> set [''b.tex'']"
    "m_toRemove (ex_manager [ex_a]) = []"
    by (simp_all add: ex_manager_def ex_a_def)
  show ?thesis
    using setTextureCollections_removal [of "ex_manager [ex_a]" "[''b.tex'']" ex_loader] ld a
    by (metis drop0 list.size(3))
qed

text \<open>
  The claim as written, that a collection replaced by a fresh load is appended to the
  removal queue, fails: the manager holds the placeholder for \<open>b.tex\<close>, reconciliation
  loads \<open>b.tex\<close> afresh, and the removal queue stays empty.
\<close>

theorem setTextureCollections_removal_counterexample:
  "m_collections (ex_manager [MaterialCollection_path ''b.tex'']) = [MaterialCollection_path ''b.tex''] \<and>
   m_toRemove (ex_manager [MaterialCollection_path ''b.tex'']) = [] \<and>
   m_collections (setTextureCollections [''b.tex''] ex_loader
                   (ex_manager [MaterialCollection_path ''b.tex''])) = [ex_b] \<and>
   m_toRemove (setTextureCollections [''b.tex''] ex_loader
                   (ex_manager [MaterialCollection_path ''b.tex''])) = []"
  by (simp add: ex_defs run_defs)

subsection \<open>Deferred preparation\<close>

text \<open>
  C5: let a collection of the list that reconciliation has built be loaded and not
  prepared. Then its index stands exactly once in the pending-prepare queue;
  \<open>setTextureMode\<close> called before the commit does not touch the collections; and the
  commit succeeds, empties the queue and replaces the collection by the result of one
  \<open>prepare\<close> call with the filter settings of the manager: it is prepared, the filter
  settings are bound and its count of \<open>prepare\<close> calls has grown by one. If
  \<open>setTextureMode\<close> has set new filter settings before the commit, those are the ones
  \<open>prepare\<close> is called with.
\<close>

theorem prepare_deferred_to_commit:
  assumes "i < length (m_collections (setTextureCollections paths ld m))"
    and "loaded (m_collections (setTextureCollections paths ld m) ! i)"
    and "\<not> prepared (m_collections (setTextureCollections paths ld m) ! i)"
  shows "count_list (m_toPrepare (setTextureCollections paths ld m)) i = 1 \<and>
         (\<exists>m'. commitChanges (setTextureCollections paths ld m) = Inr m' \<and>
            m_toPrepare m' = [] \<and>
            m_collections m' ! i =
              collection_prepare (m_minFilter m) (m_magFilter m)
                (m_collections (setTextureCollections paths ld m) ! i) \<and>
            prepared (m_collections m' ! i) \<and>
            textureMode (m_collections m' ! i) = Some (m_minFilter m, m_magFilter m) \<and>
            prepareCount (m_collections m' ! i) =
              Suc (prepareCount (m_collections (setTextureCollections paths ld m) ! i))) \<and>
         m_collections (setTextureMode a b (setTextureCollections paths ld m)) =
           m_collections (setTextureCollections paths ld m) \<and>
         (\<exists>m'. commitChanges (setTextureMode a b (setTextureCollections paths ld m)) = Inr m' \<and>
            m_toPrepare m' = [] \<and>
            m_collections m' ! i =
              collection_prepare a b (m_collections (setTextureCollections paths ld m) ! i))"
proof -
  let ?m = "setTextureCollections paths ld m"
  have "i \<in> set (m_toPrepare ?m)"
    using assms by (simp add: setTextureCollections_pending pending_set)
  moreover have "distinct (m_toPrepare ?m)"
    by (simp add: setTextureCollections_pending distinct_pending)
  ultimately have once: "count_list (m_toPrepare ?m) i = 1"
    by (simp add: count_list_distinct)
  obtain m1 where m1: "commitChanges ?m = Inr m1" "m_toPrepare m1 = []"
    "m_collections m1 ! i = collection_prepare (m_minFilter ?m) (m_magFilter ?m) (m_collections ?m ! i)"
    using commitChanges_prepares [OF setTextureCollections_pending assms] by blast
  have "m_toPrepare (setTextureMode a b ?m) = pending (m_collections (setTextureMode a b ?m))"
    by (simp add: setTextureMode_def setTextureCollections_pending)
  from commitChanges_prepares [OF this, of i] assms
  obtain m2 where m2: "commitChanges (setTextureMode a b ?m) = Inr m2" "m_toPrepare m2 = []"
    "m_collections m2 ! i = collection_prepare a b (m_collections ?m ! i)"
    by (auto simp: setTextureMode_def)
  have same: "m_collections (setTextureMode a b ?m) = m_collections ?m"
    by (simp add: setTextureMode_def)
  show ?thesis
    using once m1 m2 same
    by (simp add: setTextureCollections_fields collection_prepare_def)
qed

text \<open>
  The theorem at the target list \<open>b.tex\<close> and an empty manager: the collection loaded
  for \<open>b.tex\<close> is queued once and the commit prepares it once.
\<close>

theorem prepare_deferred_to_commit_witness:
  "(0::nat) < length (m_collections (setTextureCollections [''b.tex''] ex_loader (ex_manager []))) \<and>
   loaded (m_collections (setTextureCollections [''b.tex''] ex_loader (ex_manager [])) ! 0) \<and>
   \<not> prepared (m_collections (setTextureCollections [''b.tex''] ex_loader (ex_manager [])) ! 0) \<and>
   count_list (m_toPrepare (setTextureCollections [''b.tex''] ex_loader (ex_manager []))) 0 = 1 \<and>
   (\<exists>m'. commitChanges (setTextureCollections [''b.tex''] ex_loader (ex_manager [])) = Inr m' \<and>
      m_toPrepare m' = [] \<and> prepared (m_collections m' ! 0) \<and>
      textureMode (m_collections m' ! 0) = Some (9728, 9729) \<and>
      prepareCount (m_collections m' ! 0) = 1)"
proof -
  have c: "m_collections (setTextureCollections [''b.tex''] ex_loader (ex_manager [])) = [ex_b]"
    by (simp add: ex_defs run_defs)
  have b: "loaded ex_b" "\<not> prepared ex_b" "prepareCount ex_b = 0"
    "m_minFilter (ex_manager []) = 9728" "m_magFilter (ex_manager []) = 9729"
    by (simp_all add: ex_defs)
  show ?thesis
    using prepare_deferred_to_commit [of 0 "[''b.tex'']" ex_loader "ex_manager []" 0 0]
    by (auto simp: c b)
qed

subsection \<open>Reload when the collections cannot be found\<close>

text \<open>
  C6: when \<^verbatim>\<open>findTextureCollections\<close> fails, \<open>reload\<close> logs one error line with the
  message, reconciles against the empty target list and does nothing else: the live
  collection list, the pending-prepare queue, the name index and the flat list of
  materials are empty, every collection held before is appended to the removal queue, the
  loader is not called, and a lookup finds nothing. The result is a plain state: no
  second error arises.
\<close>

theorem reload_failure:
  "reload (Inl msg) ld m =
     m\<lparr>m_logger := m_logger m @ [(Err, [Str (''Could not reload texture collections: '' @ msg)])],
       m_collections := [], m_toPrepare := [],
       m_toRemove := m_toRemove m @ m_collections m,
       m_texturesByName := [], m_textures := []\<rparr> \<and>
   texture (reload (Inl msg) ld m) nm = None"
  by (simp add: reload_def setTextureCollections_def log_def clear_def updateTextures_def
      texture_def Let_def)

text \<open>
  The theorem at a manager that holds \<open>a.tex\<close>.
\<close>

theorem reload_failure_witness:
  "m_logger (reload (Inl ''no game path'') ex_loader (ex_manager [ex_a])) =
     [(Err, [Str ''Could not reload texture collections: no game path''])] \<and>
   m_collections (reload (Inl ''no game path'') ex_loader (ex_manager [ex_a])) = [] \<and>
   m_toRemove (reload (Inl ''no game path'') ex_loader (ex_manager [ex_a])) = [ex_a] \<and>
   texture (reload (Inl ''no game path'') ex_loader (ex_manager [ex_a])) ''x'' = None"
  using reload_failure [of "''no game path''" ex_loader "ex_manager [ex_a]" "''x''"]
  by (simp add: ex_manager_def texture_def)

subsection \<open>The frame of clear\<close>

text \<open>
  C7: \<open>clear\<close> empties the collection list, the pending-prepare queue, the name index and
  the flat list of materials, and leaves every other field as it was: the removal queue,
  the two filter settings, the flag that marks the filter settings as changed, the logger
  and the history of loader calls.
\<close>

theorem clear_frame:
  "m_collections (clear m) = [] \<and> m_toPrepare (clear m) = [] \<and>
   m_texturesByName (clear m) = [] \<and> m_textures (clear m) = [] \<and>
   m_toRemove (clear m) = m_toRemove m \<and>
   m_minFilter (clear m) = m_minFilter m \<and> m_magFilter (clear m) = m_magFilter m \<and>
   m_resetTextureMode (clear m) = m_resetTextureMode m \<and>
   m_logger (clear m) = m_logger m \<and> loadCalls (clear m) = loadCalls m"
  by (simp add: clear_def)

subsection \<open>Idempotence of clear\<close>

text \<open>
  C8: \<open>clear\<close> is idempotent: clearing a cleared manager gives the same state as clearing
  once.
\<close>

theorem clear_idempotent: "clear (clear m) = clear m"
  by (simp add: clear_def)

subsection \<open>The invariant of the pending-prepare queue\<close>

text \<open>
  C9: \<open>toPrepare_valid\<close> says that every index in the pending-prepare queue is below
  the length of the collection list and that the collection at that index is loaded and
  not prepared. If it holds, it holds again after reconciliation, after
  \<open>addTextureCollection\<close>, after \<open>clear\<close> and after \<open>commitChanges\<close>, which moreover
  succeeds: the loop of \<open>prepare\<close> meets no index out of range. It also holds after
  \<open>setTextureMode\<close>, \<open>reload\<close> and the overload of \<open>setTextureCollections\<close> that takes
  collections.
\<close>

theorem toPrepare_valid_preserved:
  assumes "toPrepare_valid m"
  shows "toPrepare_valid (setTextureCollections paths ld m) \<and>
         toPrepare_valid (addTextureCollection c m) \<and>
         toPrepare_valid (clear m) \<and>
         (\<exists>m'. commitChanges m = Inr m' \<and> toPrepare_valid m') \<and>
         toPrepare_valid (setTextureMode a b m) \<and>
         toPrepare_valid (reload found ld m) \<and>
         toPrepare_valid (setTextureCollections_vector cs m)"
proof -
  have range: "\<forall>i\<in>set (m_toPrepare m). i < length (m_collections m)"
    using assms by (simp add: toPrepare_valid_def)
  obtain m' where "commitChanges m = Inr m'" "m_toPrepare m' = []"
    using commitChanges_fields [OF range] by blast
  then have commit: "\<exists>m'. commitChanges m = Inr m' \<and> toPrepare_valid m'"
    by (auto simp: toPrepare_valid_def)
  have "toPrepare_valid (clear m)"
    by (simp add: toPrepare_valid_def clear_def)
  moreover have "toPrepare_valid (setTextureMode a b m)"
    using assms by (simp add: toPrepare_valid_def setTextureMode_def)
  moreover have "toPrepare_valid (reload found ld m)"
    by (cases found) (simp_all add: reload_def toPrepare_valid_setTextureCollections)
  moreover have "toPrepare_valid (setTextureCollections_vector cs m)"
    using toPrepare_valid_fold [OF assms, of cs]
    by (simp add: setTextureCollections_vector_def toPrepare_valid_def updateTextures_fields)
  ultimately show ?thesis
    using commit toPrepare_valid_add [OF assms] toPrepare_valid_setTextureCollections
    by simp
qed

text \<open>
  The theorem at a manager that holds the loaded collection \<open>b.tex\<close> with its index in
  the queue.
\<close>

theorem toPrepare_valid_preserved_witness:
  "toPrepare_valid ((ex_manager [ex_b]) \<lparr>m_toPrepare := [0]\<rparr>) \<and>
   toPrepare_valid (addTextureCollection ex_b ((ex_manager [ex_b]) \<lparr>m_toPrepare := [0]\<rparr>)) \<and>
   toPrepare_valid (setTextureCollections [''b.tex''] ex_loader
                      ((ex_manager [ex_b]) \<lparr>m_toPrepare := [0]\<rparr>)) \<and>
   (\<exists>m'. commitChanges ((ex_manager [ex_b]) \<lparr>m_toPrepare := [0]\<rparr>) = Inr m' \<and>
      toPrepare_valid m')"
proof -
  have v: "toPrepare_valid ((ex_manager [ex_b]) \<lparr>m_toPrepare := [0]\<rparr>)"
    by (simp add: toPrepare_valid_def ex_defs)
  show ?thesis
    using v toPrepare_valid_preserved [OF v, of "[''b.tex'']" ex_loader ex_b 0 0 "Inr []" "[]"]
    by simp
qed

subsection \<open>Retry of a path that failed before\<close>

text \<open>
  C10 (as amended): let the path \<open>p\<close> be in the target list and let the previous
  generation hold it, as placeholders that are not loaded only. Then the loader is called
  again for every occurrence of \<open>p\<close> in the target list, so at least once. If the loader
  fails for \<open>p\<close>, the number of error lines containing \<open>p\<close> that reconciliation logs
  is the number of occurrences of \<open>p\<close> in the target list minus the number of
  placeholders held for it: no error line is logged when \<open>p\<close> occurs no more often
  than placeholders are held, as when it occurs once, and one is logged for each further
  occurrence, which finds nothing left to retry. And the placeholders that the occurrences
  of \<open>p\<close> found are not appended to the removal queue: of the collections held for
  \<open>p\<close>, the appended ones are all but the first \<open>n\<close>, where \<open>n\<close> is the number of
  occurrences of \<open>p\<close>.
\<close>

theorem setTextureCollections_retry:
  assumes "p \<in> set paths" "held p (m_collections m) \<noteq> []"
    and "\<forall>c\<in>set (m_collections m). path c = p \<longrightarrow> \<not> loaded c"
  shows "count_list (drop (length (loadCalls m)) (loadCalls (setTextureCollections paths ld m))) p =
           count_list paths p \<and>
         0 < count_list paths p \<and>
         (ld p = Inl msg \<longrightarrow>
            errorLines p (drop (length (m_logger m)) (m_logger (setTextureCollections paths ld m))) =
              count_list paths p - length (held p (m_collections m))) \<and>
         (ld p = Inl msg \<and> count_list paths p \<le> length (held p (m_collections m)) \<longrightarrow>
            errorLines p (drop (length (m_logger m)) (m_logger (setTextureCollections paths ld m))) = 0) \<and>
         held p (drop (length (m_toRemove m)) (m_toRemove (setTextureCollections paths ld m))) =
           drop (count_list paths p) (held p (m_collections m))"
proof -
  let ?H = "held p (m_collections m)"
  obtain calls where calls:
    "loadCalls (setTextureCollections paths ld m) = loadCalls m @ calls"
    "count_list calls p = count_list paths p - length (filter loaded (take (count_list paths p) ?H))"
    using setTextureCollections_loadCalls [of paths ld m] by blast
  have "filter loaded (take (count_list paths p) ?H) = []"
    using assms(3) by (auto simp: filter_empty_conv dest: in_set_takeD)
  with calls have c: "count_list (drop (length (loadCalls m))
      (loadCalls (setTextureCollections paths ld m))) p = count_list paths p"
    by simp
  have pos: "0 < count_list paths p"
    using assms(1) count_list_0_iff [of paths p] by simp
  obtain lines where lines:
    "m_logger (setTextureCollections paths ld m) = m_logger m @ lines"
    "errorLines p lines = (if isl (ld p) then count_list paths p - length ?H else 0)"
    using setTextureCollections_logger [of paths ld m] by blast
  have e: "ld p = Inl msg \<Longrightarrow>
      errorLines p (drop (length (m_logger m)) (m_logger (setTextureCollections paths ld m))) =
        count_list paths p - length ?H"
    using lines by simp
  show ?thesis
    using c pos e setTextureCollections_toRemove [of p m paths ld] by simp
qed

text \<open>
  The theorem at the target list \<open>c.tex\<close>, a loader that fails for \<open>c.tex\<close> and a
  manager that holds the placeholder for \<open>c.tex\<close>: one loader call, no error line, and
  nothing with path \<open>c.tex\<close> appended to the removal queue.
\<close>

theorem setTextureCollections_retry_witness:
  "''c.tex'' \<in> set [''c.tex''] \<and>
   held ''c.tex'' (m_collections (ex_manager [MaterialCollection_path ''c.tex''])) \<noteq> [] \<and>
   \<not> loaded (MaterialCollection_path ''c.tex'') \<and>
   ex_loader ''c.tex'' = Inl ''no such directory'' \<and>
   count_list (drop (length (loadCalls (ex_manager [MaterialCollection_path ''c.tex''])))
     (loadCalls (setTextureCollections [''c.tex''] ex_loader
                  (ex_manager [MaterialCollection_path ''c.tex''])))) ''c.tex'' = 1 \<and>
   errorLines ''c.tex'' (drop (length (m_logger (ex_manager [MaterialCollection_path ''c.tex''])))
     (m_logger (setTextureCollections [''c.tex''] ex_loader
                  (ex_manager [MaterialCollection_path ''c.tex''])))) = 0 \<and>
   held ''c.tex'' (drop (length (m_toRemove (ex_manager [MaterialCollection_path ''c.tex''])))
     (m_toRemove (setTextureCollections [''c.tex''] ex_loader
                  (ex_manager [MaterialCollection_path ''c.tex''])))) = []"
  using setTextureCollections_retry
    [of "''c.tex''" "[''c.tex'']" "ex_manager [MaterialCollection_path ''c.tex'']" ex_loader
        "''no such directory''"]
  by (simp add: ex_defs MaterialCollection_path_fields)

text \<open>
  The claim as written, no error line whenever the path was held as a placeholder, fails
  when the path stands more often in the target list than placeholders are held for it:
  the manager holds one placeholder for \<open>c.tex\<close>, the target list is \<open>c.tex, c.tex\<close>
  and the loader fails. The first occurrence retries the placeholder and logs no error; the
  second finds nothing, and its failure logs an error line for \<open>c.tex\<close>.
\<close>

theorem setTextureCollections_retry_counterexample:
  "m_collections (ex_manager [MaterialCollection_path ''c.tex'']) = [MaterialCollection_path ''c.tex''] \<and>
   \<not> loaded (MaterialCollection_path ''c.tex'') \<and>
   ex_loader ''c.tex'' = Inl ''no such directory'' \<and>
   loadCalls (setTextureCollections [''c.tex'', ''c.tex''] ex_loader
               (ex_manager [MaterialCollection_path ''c.tex''])) = [''c.tex'', ''c.tex''] \<and>
   m_logger (setTextureCollections [''c.tex'', ''c.tex''] ex_loader
               (ex_manager [MaterialCollection_path ''c.tex''])) =
     [(Debug, [Str ''Added texture collection '', Path ''c.tex'']),
      (Err, [Str ''Could not load texture collection '', Str [CHR 0x27], Path ''c.tex'',
             Str [CHR 0x27, CHR '':'', CHR '' ''], Str ''no such directory'']),
      (Debug, [Str ''Added texture collection '', Path ''c.tex''])] \<and>
   errorLines ''c.tex'' (m_logger (setTextureCollections [''c.tex'', ''c.tex''] ex_loader
               (ex_manager [MaterialCollection_path ''c.tex'']))) = 1"
  by (simp add: ex_defs run_defs errorLines_def)

end
